theory Spec2Isabelle
  imports Complex_Main
begin

section \<open>The grid-world solver of grid\_world\_dynamic\_programming.ipynb\<close>

text \<open>
  The class \<open>GridWorldSolver\<close> holds a two-dimensional numpy array of state values and
  updates it by sweeps. The embedding keeps the class's method names. Values are Python
  floats in the source; here they are exact rationals, so every statement below is about
  the arithmetic the source writes down, without rounding.
\<close>

subsection \<open>Exceptions and arrays\<close>

datatype error = IndexError | ValueError | TypeError | UnboundLocalError

text \<open>
  A two-dimensional \<open>ndarray\<close>: its shape and its items. Reading or writing outside
  the shape raises \<open>IndexError\<close>; the indices met here are never negative.
\<close>

record ndarray =
  shape0 :: nat
  shape1 :: nat
  item :: "nat \<times> nat \<Rightarrow> rat"

definition zeros :: "nat \<times> nat \<Rightarrow> ndarray" where
  "zeros sz = \<lparr>shape0 = fst sz, shape1 = snd sz, item = (\<lambda>_. 0)\<rparr>"

definition inside :: "ndarray \<Rightarrow> nat \<times> nat \<Rightarrow> bool" where
  "inside a c = (fst c < shape0 a \<and> snd c < shape1 a)"

definition getitem :: "ndarray \<Rightarrow> nat \<times> nat \<Rightarrow> error + rat" where
  "getitem a c = (if inside a c then Inr (item a c) else Inl IndexError)"

definition setitem :: "ndarray \<Rightarrow> nat \<times> nat \<Rightarrow> rat \<Rightarrow> error + ndarray" where
  "setitem a c v = (if inside a c then Inr (a\<lparr>item := (item a)(c := v)\<rparr>) else Inl IndexError)"

text \<open>The index pairs of an array in row-major order: the nested \<open>for i\<close>, \<open>for j\<close> loops.\<close>

definition indices :: "ndarray \<Rightarrow> (nat \<times> nat) list" where
  "indices a = List.product [0..<shape0 a] [0..<shape1 a]"

text \<open>\<open>a.reshape(1,-1)\<close> read row by row.\<close>

definition ravel :: "ndarray \<Rightarrow> rat list" where
  "ravel a = map (item a) (indices a)"

text \<open>
  \<open>np.squeeze(a.reshape(1,-1))[1:]\<close>. The reshape gives shape \<open>(1, n)\<close>; squeeze drops
  every axis of length one, so for \<open>n = 1\<close> the result has no axis left and slicing it
  raises \<open>IndexError\<close>; otherwise the slice drops the first item.
\<close>

definition squeeze_tail :: "rat list \<Rightarrow> error + rat list" where
  "squeeze_tail xs = (if length xs = 1 then Inl IndexError else Inr (drop 1 xs))"

text \<open>Python's \<open>max\<close> of a sequence: \<open>ValueError\<close> on the empty one.\<close>

fun py_max :: "rat list \<Rightarrow> error + rat" where
  "py_max [] = Inl ValueError"
| "py_max (x # xs) = Inr (fold max xs x)"

subsection \<open>The solver object\<close>

record solver =
  r :: rat
  world :: ndarray
  g :: rat
  theta :: rat
  terminals :: string
  iterations :: int

text \<open>\<open>__init__\<close>; the keyword arguments \<open>terminals\<close> and \<open>iterations\<close> are passed explicitly.\<close>

definition GridWorldSolver :: "rat \<Rightarrow> nat \<times> nat \<Rightarrow> rat \<Rightarrow> rat \<Rightarrow> string \<Rightarrow> int \<Rightarrow> solver" where
  "GridWorldSolver rewards world_size gamma theta0 terminals0 iterations0 =
     \<lparr>r = rewards, world = zeros (fst world_size, snd world_size), g = gamma,
      theta = theta0, terminals = terminals0, iterations = iterations0\<rparr>"

subsection \<open>\<open>v_pi\<close>\<close>

text \<open>The local list \<open>d\<close> of the four direction names; only its length is used.\<close>

definition d_names :: "string list" where
  "d_names = [''up'', ''down'', ''left'', ''right'']"

text \<open>
  The loop over \<open>directions\<close>, with the running \<open>total\<close> (here \<open>tot\<close>). A method returns its result
  (or the exception raised) together with the solver object as it has left it.
\<close>

fun v_pi_loop :: "solver \<Rightarrow> (nat \<times> nat) list \<Rightarrow> rat \<Rightarrow> error + rat" where
  "v_pi_loop s [] tot = Inr tot"
| "v_pi_loop s (direction # rest) tot =
     (case getitem (world s) direction of
        Inl e \<Rightarrow> Inl e
      | Inr v \<Rightarrow>
          (let single_dir = (1 / of_nat (length d_names)) * (r s + g s * v)
           in v_pi_loop s rest (tot + single_dir)))"

definition v_pi :: "solver \<Rightarrow> (nat \<times> nat) list \<Rightarrow> (error + rat) \<times> solver" where
  "v_pi s directions = (v_pi_loop s directions 0, s)"

subsection \<open>\<open>iterate\<close>\<close>

definition is_last :: "ndarray \<Rightarrow> nat \<times> nat \<Rightarrow> bool" where
  "is_last a c = (int (fst c) = int (shape0 a) - 1 \<and> int (snd c) = int (shape1 a) - 1)"

definition is_first :: "solver \<Rightarrow> nat \<times> nat \<Rightarrow> bool" where
  "is_first s c = ((fst c = 0 \<and> snd c = 0) \<and> terminals s = ''first_and_last'')"

definition directions_of :: "ndarray \<Rightarrow> nat \<times> nat \<Rightarrow> (nat \<times> nat) list" where
  "directions_of a c =
     (let i = fst c; j = snd c;
          up = (if int i - 1 < 0 then i else i - 1);
          down = (if int i + 1 > int (shape0 a) - 1 then i else i + 1);
          left = (if int j - 1 < 0 then j else j - 1);
          right = (if int j + 1 > int (shape1 a) - 1 then j else j + 1)
      in [(up, j), (down, j), (i, left), (i, right)])"

text \<open>The body of the two nested loops at the cell \<open>c = (i, j)\<close>.\<close>

definition iterate_cell :: "solver \<Rightarrow> nat \<times> nat \<Rightarrow> (error + unit) \<times> solver" where
  "iterate_cell s c =
     (if is_last (world s) c then (Inr (), s)
      else if is_first s c then (Inr (), s)
      else
        (case v_pi s (directions_of (world s) c) of
           (Inl e, s') \<Rightarrow> (Inl e, s')
         | (Inr v, s') \<Rightarrow>
             (case setitem (world s') c v of
                Inl e \<Rightarrow> (Inl e, s')
              | Inr w \<Rightarrow> (Inr (), s'\<lparr>world := w\<rparr>))))"

fun iterate_loop :: "(nat \<times> nat) list \<Rightarrow> solver \<Rightarrow> (error + unit) \<times> solver" where
  "iterate_loop [] s = (Inr (), s)"
| "iterate_loop (c # cs) s =
     (case iterate_cell s c of
        (Inl e, s') \<Rightarrow> (Inl e, s')
      | (Inr _, s') \<Rightarrow> iterate_loop cs s')"

text \<open>
  \<open>iterate\<close> returns \<open>None\<close> when a fixed number of iterations is set and the delta
  otherwise.
\<close>

definition iterate :: "solver \<Rightarrow> (error + rat option) \<times> solver" where
  "iterate s =
     (let tmp_world = world s in
      case iterate_loop (indices (world s)) s of
        (Inl e, s') \<Rightarrow> (Inl e, s')
      | (Inr _, s') \<Rightarrow>
          if iterations s' = 0 then
            (case squeeze_tail (ravel (world s')) of
               Inl e \<Rightarrow> (Inl e, s')
             | Inr w_flat \<Rightarrow>
                 (case squeeze_tail (ravel tmp_world) of
                    Inl e \<Rightarrow> (Inl e, s')
                  | Inr tmp_flat \<Rightarrow>
                      (case py_max (map2 (\<lambda>x y. \<bar>x - y\<bar>) w_flat tmp_flat) of
                         Inl e \<Rightarrow> (Inl e, s')
                       | Inr delta \<Rightarrow> (Inr (Some delta), s'))))
          else (Inr None, s'))"

subsection \<open>\<open>calc_mini_gridworld\<close>\<close>

text \<open>The local \<open>delta\<close> starts as \<open>np.inf\<close>.\<close>

datatype bound = Infinity | Finite rat

fun exceeds :: "bound \<Rightarrow> rat \<Rightarrow> bool" where
  "exceeds Infinity t = True"
| "exceeds (Finite x) t = (x > t)"

text \<open>
  \<open>for i in range(self.iterations): self.iterate()\<close>, with the loop variable \<open>i\<close>
  (unbound while no iteration has run).
\<close>

fun for_iterate :: "nat list \<Rightarrow> solver \<Rightarrow> nat option \<Rightarrow> (error + nat option) \<times> solver" where
  "for_iterate [] s i = (Inr i, s)"
| "for_iterate (k # ks) s i =
     (case iterate s of
        (Inl e, s') \<Rightarrow> (Inl e, s')
      | (Inr _, s') \<Rightarrow> for_iterate ks s' (Some k))"

text \<open>
  The \<open>while delta > self.theta\<close> loop. It has no bound on its iterations, so it is a
  partial function: \<open>None\<close> is the loop that never ends.
\<close>

partial_function (option) while_iterate ::
  "solver \<Rightarrow> bound \<Rightarrow> int \<Rightarrow> ((error + int) \<times> solver) option" where
  "while_iterate s delta i =
     (if exceeds delta (theta s) then
        (case iterate s of
           (Inl e, s') \<Rightarrow> Some (Inl e, s')
         | (Inr None, s') \<Rightarrow> Some (Inl TypeError, s')
         | (Inr (Some dl), s') \<Rightarrow>
             if dl < theta s' then Some (Inr (i + 1), s')
             else while_iterate s' (Finite dl) (i + 1))
      else Some (Inr i, s))"

text \<open>
  The method prints \<open>i + 1\<close> as the number of iterations completed and returns
  \<open>self.world\<close>: the result is the pair of the number printed and the array returned.
\<close>

definition calc_mini_gridworld :: "solver \<Rightarrow> ((error + int \<times> ndarray) \<times> solver) option" where
  "calc_mini_gridworld s =
     (if iterations s \<noteq> 0 then
        (case for_iterate [0..<nat (iterations s)] s None of
           (Inl e, s') \<Rightarrow> Some (Inl e, s')
         | (Inr None, s') \<Rightarrow> Some (Inl UnboundLocalError, s')
         | (Inr (Some i), s') \<Rightarrow> Some (Inr (int i + 1, world s'), s'))
      else
        (case while_iterate s Infinity 0 of
           None \<Rightarrow> None
         | Some (Inl e, s') \<Rightarrow> Some (Inl e, s')
         | Some (Inr i, s') \<Rightarrow> Some (Inr (i + 1, world s'), s')))"

subsection \<open>\<open>add_arrows\<close>\<close>

text \<open>
  \<open>action_world\<close> is an array of strings of dtype \<open><U2\<close>: storing a string keeps its
  first two characters. It has the shape of \<open>grid_world\<close>, over which the loops run.
\<close>

record chararray =
  cshape0 :: nat
  cshape1 :: nat
  citem :: "nat \<times> nat \<Rightarrow> string"

definition zeros_U2 :: "nat \<times> nat \<Rightarrow> chararray" where
  "zeros_U2 sz = \<lparr>cshape0 = fst sz, cshape1 = snd sz, citem = (\<lambda>_. [])\<rparr>"

definition setitem_U2 :: "chararray \<Rightarrow> nat \<times> nat \<Rightarrow> string \<Rightarrow> chararray" where
  "setitem_U2 a c v = a\<lparr>citem := (citem a)(c := take 2 v)\<rparr>"

text \<open>The four neighbour indices; a move off the grid gives \<open>None\<close>.\<close>

definition arrow_directions :: "ndarray \<Rightarrow> nat \<times> nat \<Rightarrow> (nat option \<times> nat option) list" where
  "arrow_directions grid_world c =
     (let i = fst c; j = snd c;
          up = (if int i - 1 < 0 then None else Some (i - 1));
          down = (if int i + 1 > int (shape0 grid_world) - 1 then None else Some (i + 1));
          left = (if int j - 1 < 0 then None else Some (j - 1));
          right = (if int j + 1 > int (shape1 grid_world) - 1 then None else Some (j + 1))
      in [(up, Some j), (down, Some j), (Some i, left), (Some i, right)])"

text \<open>
  The test \<open>grid_world[direction[0], direction[1]] > grid_world[i,j]\<close> inside \<open>try\<close>.
  An index \<open>None\<close> is numpy's new axis: \<open>grid_world[None, b]\<close> and \<open>grid_world[a, None]\<close>
  are a whole row, of shape \<open>(1, shape[1])\<close>. The comparison is then an array, whose truth
  value is that of its item when it has one item and \<open>ValueError\<close> otherwise.
\<close>

definition row_exceeds :: "ndarray \<Rightarrow> nat \<Rightarrow> rat \<Rightarrow> error + bool" where
  "row_exceeds grid_world a x =
     (if a < shape0 grid_world then
        (if shape1 grid_world = 1 then Inr (item grid_world (a, 0) > x) else Inl ValueError)
      else Inl IndexError)"

fun exceeds_cell :: "ndarray \<Rightarrow> nat option \<times> nat option \<Rightarrow> nat \<times> nat \<Rightarrow> error + bool" where
  "exceeds_cell grid_world (Some a, Some b) c =
     (case getitem grid_world (a, b) of
        Inl e \<Rightarrow> Inl e
      | Inr v \<Rightarrow> Inr (v > item grid_world c))"
| "exceeds_cell grid_world (None, Some b) c = row_exceeds grid_world b (item grid_world c)"
| "exceeds_cell grid_world (Some a, None) c = row_exceeds grid_world a (item grid_world c)"
| "exceeds_cell grid_world (None, None) c =
     (if shape0 grid_world * shape1 grid_world = 1
      then Inr (item grid_world (0, 0) > item grid_world c) else Inl ValueError)"

text \<open>
  The loop over \<open>enumerate(directions)\<close> with the string \<open>actions\<close>; the bare
  \<open>except: pass\<close> makes every exception a direction without a mark.
\<close>

fun arrows_loop ::
  "ndarray \<Rightarrow> nat \<times> nat \<Rightarrow> (nat \<times> (nat option \<times> nat option)) list \<Rightarrow> string \<Rightarrow> string" where
  "arrows_loop grid_world c [] actions = actions"
| "arrows_loop grid_world c ((k, direction) # rest) actions =
     (case exceeds_cell grid_world direction c of
        Inr True \<Rightarrow>
          (let actions1 = (if k = 0 then actions @ ''^''
                           else if k = 1 then actions @ ''v''
                           else if k = 2 then actions @ ''<''
                           else if k = 3 then actions @ ''>''
                           else actions);
               actions2 = (if length actions1 = 1 then actions1 @ '' '' else actions1)
           in arrows_loop grid_world c rest actions2)
      | _ \<Rightarrow> arrows_loop grid_world c rest actions)"

text \<open>The terminal tests read \<open>self.world.shape\<close>, the neighbour tests \<open>grid_world.shape\<close>.\<close>

definition add_arrows_cell :: "solver \<Rightarrow> ndarray \<Rightarrow> chararray \<Rightarrow> nat \<times> nat \<Rightarrow> chararray" where
  "add_arrows_cell s grid_world action_world c =
     (if is_last (world s) c then setitem_U2 action_world c ''G''
      else if is_first s c then setitem_U2 action_world c ''G''
      else setitem_U2 action_world c
             (arrows_loop grid_world c (enumerate 0 (arrow_directions grid_world c)) ''''))"

definition add_arrows :: "solver \<Rightarrow> ndarray \<Rightarrow> chararray" where
  "add_arrows s grid_world =
     fold (\<lambda>c action_world. add_arrows_cell s grid_world action_world c) (indices grid_world)
       (zeros_U2 (shape0 grid_world, shape1 grid_world))"

section \<open>Notions used to state and prove the properties\<close>

subsection \<open>Sweeps as functions on the items\<close>

text \<open>The solver after \<open>n\<close> calls of \<open>iterate\<close>, whatever each call returned or raised.\<close>

definition run_sweeps :: "nat \<Rightarrow> solver \<Rightarrow> solver" where
  "run_sweeps n s = ((\<lambda>s. snd (iterate s)) ^^ n) s"

text \<open>
  A result of the \<open>while\<close> loop entered at the solver \<open>s\<close> with the counter \<open>i\<close>: when
  it is a count, the solver has gone through some number \<open>k\<close> of sweeps and the count is
  \<open>i + k\<close>.
\<close>

definition counted :: "solver \<Rightarrow> int \<Rightarrow> (error + int) \<times> solver \<Rightarrow> bool" where
  "counted s i y = (case y of (Inl e, s') \<Rightarrow> True
         | (Inr n, s') \<Rightarrow> \<exists>k. s' = run_sweeps k s \<and> n = i + int k)"

text \<open>The value \<open>v_pi\<close> computes from the items \<open>f\<close>, started at \<open>tot\<close>.\<close>

definition expect :: "solver \<Rightarrow> (nat \<times> nat \<Rightarrow> rat) \<Rightarrow> (nat \<times> nat) list \<Rightarrow> rat \<Rightarrow> rat" where
  "expect s f ds tot = fold (\<lambda>dir t. t + (1 / 4) * (r s + g s * f dir)) ds tot"

definition sweep_cell :: "solver \<Rightarrow> nat \<times> nat \<Rightarrow> (nat \<times> nat \<Rightarrow> rat) \<Rightarrow> (nat \<times> nat \<Rightarrow> rat)" where
  "sweep_cell s c f =
     (if is_last (world s) c \<or> is_first s c then f
      else f(c := expect s f (directions_of (world s) c) 0))"

definition with_items :: "solver \<Rightarrow> (nat \<times> nat \<Rightarrow> rat) \<Rightarrow> solver" where
  "with_items s f = s\<lparr>world := (world s)\<lparr>item := f\<rparr>\<rparr>"

definition sweep_items :: "solver \<Rightarrow> (nat \<times> nat \<Rightarrow> rat) \<Rightarrow> (nat \<times> nat \<Rightarrow> rat)" where
  "sweep_items s f = fold (sweep_cell s) (indices (world s)) f"

definition sweep :: "solver \<Rightarrow> solver" where
  "sweep s = with_items s (fold (sweep_cell s) (indices (world s)) (item (world s)))"

text \<open>Row-major order of the cells: \<open>c\<close> is visited before \<open>c'\<close>.\<close>

definition lex_lt :: "nat \<times> nat \<Rightarrow> nat \<times> nat \<Rightarrow> bool" where
  "lex_lt c c' = (fst c < fst c' \<or> (fst c = fst c' \<and> snd c < snd c'))"

subsection \<open>Neighbours and glyphs of the overlay\<close>

text \<open>
  The neighbours of a cell that lie in the grid, each with its glyph, in the order up, down,
  left, right; the glyphs of those whose value is strictly greater than the cell's; and the
  number of direction glyphs in a string.
\<close>

definition in_grid_neighbours :: "ndarray \<Rightarrow> nat \<times> nat \<Rightarrow> (char \<times> nat \<times> nat) list" where
  "in_grid_neighbours a c =
     (if 0 < fst c then [(CHR ''^'', (fst c - 1, snd c))] else []) @
     (if fst c + 1 < shape0 a then [(CHR ''v'', (fst c + 1, snd c))] else []) @
     (if 0 < snd c then [(CHR ''<'', (fst c, snd c - 1))] else []) @
     (if snd c + 1 < shape1 a then [(CHR ''>'', (fst c, snd c + 1))] else [])"

definition greater_neighbours :: "ndarray \<Rightarrow> nat \<times> nat \<Rightarrow> string" where
  "greater_neighbours a c = map fst (filter (\<lambda>(sym, n). item a n > item a c) (in_grid_neighbours a c))"

definition count_arrows :: "string \<Rightarrow> nat" where
  "count_arrows str = length (filter (\<lambda>ch. ch \<in> set ''^v<>'') str)"

definition glyph :: "nat \<Rightarrow> string" where
  "glyph k = (if k = 0 then ''^'' else if k = 1 then ''v'' else if k = 2 then ''<''
              else if k = 3 then ''>'' else '''')"

subsection \<open>Interval bounds for a run of sweeps\<close>

text \<open>
  For reward \<open>-1\<close> and discount \<open>1\<close>, a sweep is followed in fixed-point integer
  arithmetic: each cell carries a lower and an upper bound, in units of \<open>1 / scale\<close>, stored
  at the cell's row-major position. The lower bound is rounded down and the upper bound
  up, so the bounds stay on their side of the exact value while the numbers stay small.
\<close>

definition scale :: int where
  "scale = 2 ^ 30"

definition flat_index :: "ndarray \<Rightarrow> nat \<times> nat \<Rightarrow> nat" where
  "flat_index a c = fst c * shape1 a + snd c"

definition box_cell :: "solver \<Rightarrow> nat \<times> nat \<Rightarrow> (int \<times> int) list \<Rightarrow> (int \<times> int) list" where
  "box_cell s c bs =
     (if is_last (world s) c \<or> is_first s c then bs
      else
        (let ns = map (\<lambda>dir. bs ! flat_index (world s) dir) (directions_of (world s) c);
             lo = (sum_list (map fst ns) - 4 * scale) div 4;
             hi = - ((4 * scale - sum_list (map snd ns)) div 4)
         in bs[flat_index (world s) c := (lo, hi)]))"

definition box_sweep :: "solver \<Rightarrow> (int \<times> int) list \<Rightarrow> (int \<times> int) list" where
  "box_sweep s bs = fold (box_cell s) (indices (world s)) bs"

fun box_run :: "nat \<Rightarrow> solver \<Rightarrow> (int \<times> int) list \<Rightarrow> (int \<times> int) list" where
  "box_run 0 s bs = bs"
| "box_run (Suc n) s bs = box_run n s (box_sweep s bs)"

definition encloses :: "solver \<Rightarrow> (int \<times> int) list \<Rightarrow> (nat \<times> nat \<Rightarrow> rat) \<Rightarrow> bool" where
  "encloses s bs f \<longleftrightarrow>
     length bs = shape0 (world s) * shape1 (world s) \<and>
     (\<forall>c. inside (world s) c \<longrightarrow>
        of_int (fst (bs ! flat_index (world s) c)) \<le> f c * of_int scale \<and>
        f c * of_int scale \<le> of_int (snd (bs ! flat_index (world s) c)))"

text \<open>
  The upper bound at position \<open>k\<close> lies at least \<open>m\<close> units below the lower bound at
  position \<open>l\<close>.
\<close>

definition below :: "(int \<times> int) list \<Rightarrow> nat \<Rightarrow> nat \<Rightarrow> int \<Rightarrow> bool" where
  "below bs k l m = (snd (bs ! k) + m \<le> fst (bs ! l))"

text \<open>
  Every upper bound lies at most \<open>m\<close> units above the lower bound at the mirrored position,
  the one that the point reflection of the grid sends it to.
\<close>

definition mirror_close :: "(int \<times> int) list \<Rightarrow> int \<Rightarrow> bool" where
  "mirror_close bs m =
     list_all (\<lambda>k. snd (bs ! k) - fst (bs ! (length bs - 1 - k)) \<le> m) [0..<length bs]"

section \<open>Lemmas\<close>

subsection \<open>The sweep never raises: \<open>iterate\<close> as a fold over the cells\<close>

lemma v_pi_loop_inside:
  "\<forall>dir \<in> set ds. inside (world s) dir \<Longrightarrow>
   v_pi_loop s ds tot = Inr (expect s (item (world s)) ds tot)"
  by (induction ds arbitrary: tot) (simp_all add: expect_def getitem_def d_names_def)

lemma directions_inside:
  "inside a c \<Longrightarrow> \<forall>dir \<in> set (directions_of a c). inside a dir"
  by (auto simp: directions_of_def inside_def Let_def)

lemma with_items_simps [simp]:
  "world (with_items s f) = (world s)\<lparr>item := f\<rparr>"
  "r (with_items s f) = r s" "g (with_items s f) = g s" "theta (with_items s f) = theta s"
  "terminals (with_items s f) = terminals s" "iterations (with_items s f) = iterations s"
  "with_items (with_items s f) f' = with_items s f'"
  "with_items s (item (world s)) = s"
  by (simp_all add: with_items_def)

lemma sweep_cell_with_items [simp]: "sweep_cell (with_items s f) = sweep_cell s"
  by (rule ext)+ (simp add: sweep_cell_def is_last_def is_first_def directions_of_def expect_def)

lemma inside_with_items [simp]: "inside ((world s)\<lparr>item := f\<rparr>) c = inside (world s) c"
  by (simp add: inside_def)

lemma iterate_cell_pure:
  "inside (world s) c \<Longrightarrow>
   iterate_cell s c = (Inr (), with_items s (sweep_cell s c (item (world s))))"
  using directions_inside [of "world s" c]
  by (simp add: iterate_cell_def v_pi_def v_pi_loop_inside setitem_def sweep_cell_def with_items_def)

lemma iterate_loop_pure:
  "\<forall>c \<in> set cs. inside (world s) c \<Longrightarrow>
   iterate_loop cs s = (Inr (), with_items s (fold (sweep_cell s) cs (item (world s))))"
proof (induction cs arbitrary: s)
  case Nil
  show ?case by simp
next
  case (Cons c cs)
  let ?s1 = "with_items s (sweep_cell s c (item (world s)))"
  have step: "iterate_cell s c = (Inr (), ?s1)"
    using Cons.prems by (simp add: iterate_cell_pure)
  have "\<forall>c \<in> set cs. inside (world ?s1) c"
    using Cons.prems by simp
  from Cons.IH [OF this] show ?case
    by (simp add: step)
qed

lemma indices_inside: "c \<in> set (indices a) \<longleftrightarrow> inside a c"
  by (cases c) (auto simp: indices_def inside_def)

lemma iterate_loop_sweep: "iterate_loop (indices (world s)) s = (Inr (), sweep s)"
  by (simp add: iterate_loop_pure indices_inside sweep_def)

lemma snd_iterate: "snd (iterate s) = sweep s"
  by (simp add: iterate_def iterate_loop_sweep Let_def split: sum.splits)

lemma iterate_fixed: "iterations s \<noteq> 0 \<Longrightarrow> iterate s = (Inr None, sweep s)"
  by (simp add: iterate_def iterate_loop_sweep Let_def sweep_def)

lemma sweep_items_eq: "sweep s = with_items s (sweep_items s (item (world s)))"
  by (simp add: sweep_def sweep_items_def)

lemma indices_with_items [simp]: "indices ((world s)\<lparr>item := f\<rparr>) = indices (world s)"
  by (simp add: indices_def)

lemma sweep_items_with_items [simp]: "sweep_items (with_items s f) = sweep_items s"
  by (rule ext) (simp add: sweep_items_def)

lemma run_sweeps_items:
  "run_sweeps n s = with_items s ((sweep_items s ^^ n) (item (world s)))"
proof (induction n)
  case 0
  show ?case by (simp add: run_sweeps_def)
next
  case (Suc n)
  have "run_sweeps (Suc n) s = sweep (run_sweeps n s)"
    by (simp add: run_sweeps_def snd_iterate)
  then show ?case
    by (simp add: Suc sweep_items_eq)
qed

lemma run_sweeps_Suc: "run_sweeps (Suc n) s = run_sweeps n (sweep s)"
  by (simp add: run_sweeps_def funpow_swap1 snd_iterate)

lemma sweep_cell_terminal:
  "is_last (world s) c \<or> is_first s c \<Longrightarrow> sweep_cell s c' f c = f c"
  by (auto simp: sweep_cell_def)

lemma fold_sweep_cell_terminal:
  "is_last (world s) c \<or> is_first s c \<Longrightarrow> fold (sweep_cell s) cs f c = f c"
  by (induction cs arbitrary: f) (simp_all add: sweep_cell_terminal)

lemma sweep_items_terminal:
  "is_last (world s) c \<or> is_first s c \<Longrightarrow> sweep_items s f c = f c"
  by (simp add: sweep_items_def fold_sweep_cell_terminal)

lemma funpow_sweep_items_terminal:
  "is_last (world s) c \<or> is_first s c \<Longrightarrow> (sweep_items s ^^ n) f c = f c"
  by (induction n) (simp_all add: sweep_items_terminal)

lemma iterations_run_sweeps [simp]: "iterations (run_sweeps n s) = iterations s"
  by (simp add: run_sweeps_items)

lemma for_iterate_fixed:
  "iterations s \<noteq> 0 \<Longrightarrow>
   for_iterate ks s i = (Inr (if ks = [] then i else Some (last ks)), run_sweeps (length ks) s)"
proof (induction ks arbitrary: s i)
  case Nil
  show ?case by (simp add: run_sweeps_def)
next
  case (Cons k ks)
  have "iterations (sweep s) \<noteq> 0" using Cons.prems by (simp add: sweep_items_eq)
  from Cons.IH [OF this] show ?case
    using Cons.prems by (simp add: iterate_fixed run_sweeps_Suc)
qed

lemma sweep_cell_theta [simp]: "sweep_cell (s\<lparr>theta := t\<rparr>) = sweep_cell s"
  by (rule ext)+ (simp add: sweep_cell_def is_last_def is_first_def directions_of_def expect_def)

lemma world_run_sweeps_theta: "world (run_sweeps n (s\<lparr>theta := t\<rparr>)) = world (run_sweeps n s)"
  by (simp add: run_sweeps_items sweep_items_def [abs_def])

lemma product_append: "List.product (xs @ ys) zs = List.product xs zs @ List.product ys zs"
  by (induction xs) simp_all

lemma upt_split: "i < n \<Longrightarrow> [0..<n] = [0..<i] @ i # [Suc i..<n]"
proof -
  assume i: "i < n"
  have "[0..<i + (n - i)] = [0..<i] @ [i..<i + (n - i)]"
    by (rule upt_add_eq_append) simp
  then show ?thesis using i by (simp add: upt_conv_Cons)
qed

lemma indices_split:
  assumes "inside a (i, j)"
  shows "indices a =
    (List.product [0..<i] [0..<shape1 a] @ map (Pair i) [0..<j]) @ (i, j) #
    (map (Pair i) [Suc j..<shape1 a] @ List.product [Suc i..<shape0 a] [0..<shape1 a])"
proof -
  have i: "i < shape0 a" and j: "j < shape1 a" using assms by (simp_all add: inside_def)
  have r0: "[0..<shape0 a] = [0..<i] @ i # [Suc i..<shape0 a]"
    using i by (rule upt_split)
  have r1: "[0..<shape1 a] = [0..<j] @ j # [Suc j..<shape1 a]"
    using j by (rule upt_split)
  have "indices a = List.product [0..<i] [0..<shape1 a] @ map (Pair i) [0..<shape1 a]
        @ List.product [Suc i..<shape0 a] [0..<shape1 a]"
    unfolding indices_def by (subst r0) (simp add: product_append)
  also have "map (Pair i) [0..<shape1 a] = map (Pair i) [0..<j] @ (i, j) # map (Pair i) [Suc j..<shape1 a]"
    by (subst r1) simp
  finally show ?thesis by simp
qed

lemma distinct_indices: "distinct (indices a)"
  by (simp add: indices_def distinct_product)

lemma fold_sweep_cell_other:
  "c \<notin> set cs \<Longrightarrow> fold (sweep_cell s) cs f c = f c"
  by (induction cs arbitrary: f) (auto simp: sweep_cell_def)

lemma expect_cong:
  "\<forall>dir \<in> set ds. f dir = f' dir \<Longrightarrow> expect s f ds tot = expect s f' ds tot"
  unfolding expect_def by (induction ds arbitrary: tot) simp_all

lemma sweep_items_at:
  assumes c: "inside (world s) c" and nt: "\<not> is_last (world s) c" "\<not> is_first s c"
  shows "sweep_items s f c =
         expect s (\<lambda>dir. if lex_lt dir c then sweep_items s f dir else f dir)
           (directions_of (world s) c) 0"
proof -
  obtain i j where cij: "c = (i, j)" by (cases c)
  define pre where "pre = List.product [0..<i] [0..<shape1 (world s)] @ map (Pair i) [0..<j]"
  define post where "post = map (Pair i) [Suc j..<shape1 (world s)]
     @ List.product [Suc i..<shape0 (world s)] [0..<shape1 (world s)]"
  have split: "indices (world s) = pre @ c # post"
    using indices_split [of "world s" i j] c by (simp add: cij pre_def post_def)
  have dist: "distinct (pre @ c # post)"
    using distinct_indices [of "world s"] by (simp add: split)
  define f1 where "f1 = fold (sweep_cell s) pre f"
  have all: "sweep_items s f = fold (sweep_cell s) post (sweep_cell s c f1)"
    by (simp add: sweep_items_def split f1_def)
  have not_post: "c \<notin> set post" using dist by simp
  have at_c: "sweep_items s f c = expect s f1 (directions_of (world s) c) 0"
    using nt by (simp add: all fold_sweep_cell_other [OF not_post] sweep_cell_def)
  have pre_lex: "dir \<in> set pre \<longleftrightarrow> lex_lt dir c" if "inside (world s) dir" for dir
    using that by (cases dir) (auto simp: pre_def lex_lt_def cij inside_def)
  have f1_eq: "f1 dir = (if lex_lt dir c then sweep_items s f dir else f dir)"
    if ins: "inside (world s) dir" for dir
  proof (cases "dir \<in> set pre")
    case True
    then have "dir \<notin> set (c # post)" using dist by auto
    then have "dir \<noteq> c" "dir \<notin> set post" by simp_all
    then have "sweep_items s f dir = f1 dir"
      by (simp add: all fold_sweep_cell_other) (simp add: sweep_cell_def)
    then show ?thesis using True pre_lex [OF ins] by simp
  next
    case False
    then have "f1 dir = f dir" by (simp add: f1_def fold_sweep_cell_other)
    then show ?thesis using False pre_lex [OF ins] by simp
  qed
  have "expect s f1 (directions_of (world s) c) 0 =
        expect s (\<lambda>dir. if lex_lt dir c then sweep_items s f dir else f dir)
          (directions_of (world s) c) 0"
    by (rule expect_cong) (use directions_inside [OF c] f1_eq in auto)
  then show ?thesis by (simp add: at_c)
qed

lemma hd_indices:
  assumes "0 < shape0 a" "0 < shape1 a"
  shows "indices a = (0, 0) # tl (indices a)"
  using indices_split [of a 0 0] assms by (simp add: inside_def)

lemma set_tl_indices:
  assumes "0 < shape0 a" "0 < shape1 a"
  shows "set (tl (indices a)) = {c. inside a c \<and> c \<noteq> (0, 0)}"
proof -
  have "distinct ((0, 0) # tl (indices a))" "set ((0, 0) # tl (indices a)) = {c. inside a c}"
    using hd_indices [OF assms] distinct_indices [of a] indices_inside [of _ a] by auto
  then show ?thesis by auto
qed

lemma length_indices: "length (indices a) = shape0 a * shape1 a"
  by (simp add: indices_def length_product)

lemma map2_abs_diff: "map2 (\<lambda>x y. \<bar>x - y\<bar>) (map f xs) (map h xs) = map (\<lambda>c. \<bar>f c - h c\<bar>) xs"
  by (induction xs) simp_all

lemma py_max_Max:
  assumes "xs \<noteq> []"
  shows "py_max xs = Inr (Max (set xs))"
proof (cases xs)
  case Nil
  then show ?thesis using \<open>xs \<noteq> []\<close> by simp
next
  case (Cons a list)
  show ?thesis using Max.set_eq_fold [of a list] by (simp add: Cons)
qed

lemma sweep_items_explicit:
  assumes c: "inside (world s) (i, j)" and nt: "\<not> is_last (world s) (i, j)" "\<not> is_first s (i, j)"
  shows "sweep_items s f (i, j) =
      (1/4) * (r s + g s * (if i = 0 then f (i, j) else sweep_items s f (i - 1, j)))
    + (1/4) * (r s + g s * (if i + 1 < shape0 (world s) then f (i + 1, j) else f (i, j)))
    + (1/4) * (r s + g s * (if j = 0 then f (i, j) else sweep_items s f (i, j - 1)))
    + (1/4) * (r s + g s * (if j + 1 < shape1 (world s) then f (i, j + 1) else f (i, j)))"
  by (subst sweep_items_at [OF c nt])
     (auto simp: expect_def directions_of_def lex_lt_def Let_def)

lemma calc_fixed:
  assumes "0 < iterations s"
  shows "calc_mini_gridworld s =
           Some (Inr (iterations s, world (run_sweeps (nat (iterations s)) s)),
                 run_sweeps (nat (iterations s)) s)"
proof -
  have ne: "[0..<nat (iterations s)] \<noteq> []" using assms by simp
  have la: "int (last [0..<nat (iterations s)]) + 1 = iterations s"
    using assms by (simp add: last_upt)
  show ?thesis
    using assms ne la by (simp add: calc_mini_gridworld_def for_iterate_fixed)
qed

text \<open>
  The \<open>while\<close> loop counts its sweeps in \<open>i\<close>, and \<open>calc_mini_gridworld\<close> prints \<open>i + 1\<close>:
  in convergence mode the number printed is one more than the number of sweeps.
\<close>

lemma while_iterate_step:
  assumes IH: "\<And>s delta i y. w s delta i = Some y \<Longrightarrow> counted s i y"
    and body: "(if exceeds delta (theta s)
      then case iterate s of (Inl e, s') \<Rightarrow> Some (Inl e, s')
           | (Inr None, s') \<Rightarrow> Some (Inl TypeError, s')
           | (Inr (Some dl), s') \<Rightarrow>
               if dl < theta s' then Some (Inr (i + 1), s')
               else w s' (Finite dl) (i + 1)
      else Some (Inr i, s)) = Some y"
  shows "counted s i y"
proof (cases "exceeds delta (theta s)")
  case False
  then have "y = (Inr i, s)" using body by simp
  moreover have "s = run_sweeps 0 s" by (simp add: run_sweeps_def)
  ultimately show ?thesis unfolding counted_def by auto
next
  case True
  obtain res where it: "iterate s = (res, sweep s)"
    using snd_iterate [of s] by (cases "iterate s") simp
  have s1: "sweep s = run_sweeps 1 s" by (simp add: run_sweeps_def snd_iterate)
  show ?thesis
  proof (cases res)
    case (Inl e)
    then show ?thesis using body True it by (auto simp: counted_def)
  next
    case (Inr d)
    show ?thesis
    proof (cases d)
      case None
      then show ?thesis using body True it Inr by (auto simp: counted_def)
    next
      case (Some dl)
      show ?thesis
      proof (cases "dl < theta (sweep s)")
        case True
        then have "y = (Inr (i + 1), sweep s)"
          using body \<open>exceeds delta (theta s)\<close> it Inr Some by simp
        then show ?thesis using s1 by (auto simp: counted_def)
      next
        case False
        then have "w (sweep s) (Finite dl) (i + 1) = Some y"
          using body \<open>exceeds delta (theta s)\<close> it Inr Some by simp
        then have cy: "counted (sweep s) (i + 1) y" by (rule IH)
        obtain res' s' where y: "y = (res', s')" by (cases y)
        show ?thesis
        proof (cases res')
          case (Inl e)
          then show ?thesis by (simp add: y counted_def)
        next
          case (Inr n)
          then obtain k where "s' = run_sweeps k (sweep s)" "n = i + 1 + int k"
            using cy by (auto simp: y counted_def)
          then have "s' = run_sweeps (Suc k) s \<and> n = i + int (Suc k)"
            by (simp add: run_sweeps_Suc)
          then show ?thesis unfolding y Inr counted_def by (simp only: prod.case sum.case) blast
        qed
      qed
    qed
  qed
qed

lemma while_iterate_counted:
  assumes "while_iterate s delta i = Some y"
  shows "counted s i y"
  by (rule while_iterate.raw_induct [where P = "\<lambda>s delta i y. counted s i y", OF _ assms])
     (rule while_iterate_step)

lemma calc_convergence_count:
  assumes "iterations s = 0" and "calc_mini_gridworld s = Some (Inr (n, w), s')"
  shows "\<exists>k. s' = run_sweeps k s \<and> w = world s' \<and> n = int k + 1"
proof -
  obtain y where wy: "while_iterate s Infinity 0 = Some y"
    using assms by (auto simp: calc_mini_gridworld_def split: option.splits)
  have cy: "counted s 0 y" using wy by (rule while_iterate_counted)
  obtain res s1 where y: "y = (res, s1)" by (cases y)
  show ?thesis
    using assms cy wy unfolding y
    by (cases res) (auto simp: calc_mini_gridworld_def counted_def)
qed

lemma iterate_one_cell:
  "iterate (GridWorldSolver rewards (1, 1) gamma theta0 terminals0 0) =
     (Inl IndexError, GridWorldSolver rewards (1, 1) gamma theta0 terminals0 0)"
proof -
  define s where "s = GridWorldSolver rewards (1, 1) gamma theta0 terminals0 0"
  have ix: "indices (world s) = [(0, 0)]"
    by (simp add: s_def indices_def GridWorldSolver_def zeros_def)
  have la: "is_last (world s) (0, 0)"
    by (simp add: s_def is_last_def GridWorldSolver_def zeros_def)
  have lp: "iterate_loop (indices (world s)) s = (Inr (), s)"
    unfolding ix using la by (simp add: iterate_cell_def)
  have it: "iterations s = 0" by (simp add: s_def GridWorldSolver_def)
  have "iterate s = (Inl IndexError, s)"
    unfolding iterate_def lp by (simp add: Let_def it ravel_def ix squeeze_tail_def)
  then show ?thesis by (simp only: s_def)
qed

subsection \<open>The arrows of one cell\<close>

lemma add_arrows_cell_eq:
  "add_arrows_cell s gw aw c = setitem_U2 aw c
     (if is_last (world s) c \<or> is_first s c then ''G''
      else arrows_loop gw c (enumerate 0 (arrow_directions gw c)) '''')"
  by (simp add: add_arrows_cell_def)

lemma fold_add_arrows_cell:
  "citem (fold (\<lambda>c aw. add_arrows_cell s gw aw c) cs aw0) c =
     (if c \<in> set cs then take 2 (if is_last (world s) c \<or> is_first s c then ''G''
      else arrows_loop gw c (enumerate 0 (arrow_directions gw c)) '''') else citem aw0 c)"
  by (induction cs arbitrary: aw0) (auto simp: add_arrows_cell_eq setitem_U2_def)

lemma arrows_loop_step:
  "arrows_loop gw c ((k, dir) # rest) acts =
     arrows_loop gw c rest
       (if exceeds_cell gw dir c = Inr True
        then (if length (acts @ glyph k) = 1 then acts @ glyph k @ '' '' else acts @ glyph k)
        else acts)"
  by (simp add: glyph_def Let_def split: sum.splits bool.splits)

lemma arrows_loop_full:
  "2 \<le> length acts \<Longrightarrow> take 2 (arrows_loop gw c kds acts) = take 2 acts"
proof (induction kds arbitrary: acts)
  case Nil
  show ?case by simp
next
  case (Cons kd kds)
  obtain k dir where kd: "kd = (k, dir)" by (cases kd)
  show ?case
    unfolding kd arrows_loop_step using Cons.prems by (simp add: Cons.IH)
qed

lemma arrows_loop_empty:
  "\<forall>kd \<in> set kds. fst kd < 4 \<Longrightarrow>
   take 2 (arrows_loop gw c kds '''') =
     (case filter (\<lambda>kd. exceeds_cell gw (snd kd) c = Inr True) kds of
        [] \<Rightarrow> '''' | kd # _ \<Rightarrow> glyph (fst kd) @ '' '')"
proof (induction kds)
  case Nil
  show ?case by simp
next
  case (Cons kd kds)
  obtain k dir where kd: "kd = (k, dir)" by (cases kd)
  have k: "k < 4" using Cons.prems by (simp add: kd)
  then have g1: "length (glyph k) = 1" by (simp add: glyph_def)
  show ?case
  proof (cases "exceeds_cell gw dir c = Inr True")
    case True
    have "take 2 (arrows_loop gw c kds (glyph k @ '' '')) = take 2 (glyph k @ '' '')"
      by (rule arrows_loop_full) (simp add: g1)
    then show ?thesis using True g1 by (simp add: kd arrows_loop_step del: arrows_loop.simps)
  next
    case False
    then show ?thesis using Cons by (simp add: kd arrows_loop_step del: arrows_loop.simps)
  qed
qed

lemma row_self: "inside gw c \<Longrightarrow> row_exceeds gw (fst c) (item gw c) \<noteq> Inr True"
  by (cases c) (auto simp: row_exceeds_def inside_def)

lemma row_top:
  "inside gw c \<Longrightarrow> fst c = 0 \<Longrightarrow> row_exceeds gw (snd c) (item gw c) \<noteq> Inr True"
  by (cases c) (auto simp: row_exceeds_def inside_def)

lemma row_bottom:
  assumes "shape0 gw = shape0 (world s)" "shape1 gw = shape1 (world s)"
    and "inside gw c" and "\<not> is_last (world s) c" and "shape0 gw \<le> fst c + 1"
  shows "row_exceeds gw (snd c) (item gw c) \<noteq> Inr True"
  using assms by (cases c) (auto simp: row_exceeds_def inside_def is_last_def)

lemma marked_directions:
  assumes sh: "shape0 gw = shape0 (world s)" "shape1 gw = shape1 (world s)"
    and c: "inside gw c" and nl: "\<not> is_last (world s) c"
  shows "map (\<lambda>kd. glyph (fst kd))
           (filter (\<lambda>kd. exceeds_cell gw (snd kd) c = Inr True) (enumerate 0 (arrow_directions gw c)))
         = map (\<lambda>x. [x]) (greater_neighbours gw c)"
proof -
  obtain i j where cij: "c = (i, j)" by (cases c)
  have ij: "i < shape0 gw" "j < shape1 gw" using c by (simp_all add: cij inside_def)
  have en: "enumerate 0 (arrow_directions gw c) =
      [(0, (if i = 0 then None else Some (i - 1), Some j)),
       (1, (if i + 1 < shape0 gw then Some (i + 1) else None, Some j)),
       (2, (Some i, if j = 0 then None else Some (j - 1))),
       (3, (Some i, if j + 1 < shape1 gw then Some (j + 1) else None))]"
    by (auto simp: arrow_directions_def Let_def cij enumerate_eq_zip upt_rec)
  have up: "(exceeds_cell gw (if i = 0 then None else Some (i - 1), Some j) c = Inr True) =
            (0 < i \<and> item gw (i - 1, j) > item gw c)"
    using row_top [OF c] ij by (auto simp: cij getitem_def inside_def)
  have down: "(exceeds_cell gw (if i + 1 < shape0 gw then Some (i + 1) else None, Some j) c = Inr True) =
            (i + 1 < shape0 gw \<and> item gw (i + 1, j) > item gw c)"
    using row_bottom [OF sh c nl] ij by (auto simp: cij getitem_def inside_def)
  have left: "(exceeds_cell gw (Some i, if j = 0 then None else Some (j - 1)) c = Inr True) =
            (0 < j \<and> item gw (i, j - 1) > item gw c)"
    using row_self [OF c] ij by (auto simp: cij getitem_def inside_def)
  have right: "(exceeds_cell gw (Some i, if j + 1 < shape1 gw then Some (j + 1) else None) c = Inr True) =
            (j + 1 < shape1 gw \<and> item gw (i, j + 1) > item gw c)"
    using row_self [OF c] ij by (auto simp: cij getitem_def inside_def)
  have flt: "filter (\<lambda>kd. exceeds_cell gw (snd kd) c = Inr True) (enumerate 0 (arrow_directions gw c)) =
     (if 0 < i \<and> item gw (i - 1, j) > item gw c then [(0, (if i = 0 then None else Some (i - 1), Some j))] else []) @
     (if i + 1 < shape0 gw \<and> item gw (i + 1, j) > item gw c then [(1, (if i + 1 < shape0 gw then Some (i + 1) else None, Some j))] else []) @
     (if 0 < j \<and> item gw (i, j - 1) > item gw c then [(2, (Some i, if j = 0 then None else Some (j - 1)))] else []) @
     (if j + 1 < shape1 gw \<and> item gw (i, j + 1) > item gw c then [(3, (Some i, if j + 1 < shape1 gw then Some (j + 1) else None))] else [])"
    unfolding en by (simp only: filter.simps snd_conv up down left right append_Nil append_Cons if_distrib [of "\<lambda>x. x @ _"] cong: if_cong)
  show ?thesis
    unfolding flt by (simp add: cij greater_neighbours_def in_grid_neighbours_def glyph_def)
qed

lemma take2_arrows:
  assumes sh: "shape0 gw = shape0 (world s)" "shape1 gw = shape1 (world s)"
    and c: "inside gw c" and nl: "\<not> is_last (world s) c"
  shows "take 2 (arrows_loop gw c (enumerate 0 (arrow_directions gw c)) '''') =
     (case greater_neighbours gw c of [] \<Rightarrow> '''' | x # _ \<Rightarrow> [x, CHR '' ''])"
proof -
  have k4: "\<forall>kd \<in> set (enumerate 0 (arrow_directions gw c)). fst kd < 4"
    by (auto simp: arrow_directions_def Let_def enumerate_eq_zip upt_rec)
  let ?ms = "filter (\<lambda>kd. exceeds_cell gw (snd kd) c = Inr True) (enumerate 0 (arrow_directions gw c))"
  have m: "map (\<lambda>kd. glyph (fst kd)) ?ms = map (\<lambda>x. [x]) (greater_neighbours gw c)"
    by (rule marked_directions [OF assms])
  show ?thesis
  proof (cases ?ms)
    case Nil
    then have "greater_neighbours gw c = []" using m by simp
    then show ?thesis using Nil by (simp add: arrows_loop_empty [OF k4])
  next
    case (Cons kd rest)
    then obtain x xs where gn: "greater_neighbours gw c = x # xs" and x: "glyph (fst kd) = [x]"
      using m by (cases "greater_neighbours gw c") auto
    show ?thesis using Cons by (simp add: arrows_loop_empty [OF k4] gn x)
  qed
qed

subsection \<open>Interval bounds enclose the sweep\<close>

lemma flat_index_less: "inside a c \<Longrightarrow> flat_index a c < shape0 a * shape1 a"
proof -
  assume "inside a c"
  then have i: "fst c < shape0 a" and j: "snd c < shape1 a" by (simp_all add: inside_def)
  have "fst c * shape1 a + snd c < Suc (fst c) * shape1 a" using j by simp
  also have "\<dots> \<le> shape0 a * shape1 a" using i by (intro mult_le_mono1) simp
  finally show ?thesis by (simp add: flat_index_def)
qed

lemma flat_index_inj:
  assumes "inside a c" "inside a c'" "flat_index a c = flat_index a c'"
  shows "c = c'"
proof -
  have j: "snd c < shape1 a" "snd c' < shape1 a" using assms by (simp_all add: inside_def)
  have "(fst c * shape1 a + snd c) div shape1 a = (fst c' * shape1 a + snd c') div shape1 a"
       "(fst c * shape1 a + snd c) mod shape1 a = (fst c' * shape1 a + snd c') mod shape1 a"
    using assms(3) by (simp_all add: flat_index_def)
  then have "fst c = fst c'" "snd c = snd c'" using j by simp_all
  then show ?thesis by (simp add: prod_eq_iff)
qed

lemma expect_sum:
  assumes "r s = - 1" "g s = 1"
  shows "expect s f ds tot = tot + ((\<Sum>dir\<leftarrow>ds. f dir) - of_nat (length ds)) / 4"
  unfolding expect_def using assms
  by (induction ds arbitrary: tot) (simp_all add: diff_divide_distrib add_divide_distrib)

lemma enclosesD:
  assumes "encloses s bs f" "inside (world s) c"
  shows "of_int (fst (bs ! flat_index (world s) c)) \<le> f c * of_int scale"
    and "f c * of_int scale \<le> of_int (snd (bs ! flat_index (world s) c))"
  using assms unfolding encloses_def by blast+

lemma sum_lower:
  assumes "encloses s bs f" "\<forall>dir \<in> set ds. inside (world s) dir"
  shows "of_int (sum_list (map fst (map (\<lambda>dir. bs ! flat_index (world s) dir) ds)))
         \<le> (\<Sum>dir\<leftarrow>ds. f dir) * of_int scale"
  using assms(2)
proof (induction ds)
  case Nil
  show ?case by simp
next
  case (Cons x ds)
  have "of_int (fst (bs ! flat_index (world s) x)) \<le> f x * of_int scale"
    using Cons.prems by (intro enclosesD [OF assms(1)]) simp
  moreover have "of_int (sum_list (map fst (map (\<lambda>dir. bs ! flat_index (world s) dir) ds)))
         \<le> (\<Sum>dir\<leftarrow>ds. f dir) * of_int scale"
    using Cons by simp
  ultimately show ?case by (simp add: distrib_right)
qed

lemma sum_upper:
  assumes "encloses s bs f" "\<forall>dir \<in> set ds. inside (world s) dir"
  shows "(\<Sum>dir\<leftarrow>ds. f dir) * of_int scale
         \<le> of_int (sum_list (map snd (map (\<lambda>dir. bs ! flat_index (world s) dir) ds)))"
  using assms(2)
proof (induction ds)
  case Nil
  show ?case by simp
next
  case (Cons x ds)
  have "f x * of_int scale \<le> of_int (snd (bs ! flat_index (world s) x))"
    using Cons.prems by (intro enclosesD [OF assms(1)]) simp
  moreover have "(\<Sum>dir\<leftarrow>ds. f dir) * of_int scale
         \<le> of_int (sum_list (map snd (map (\<lambda>dir. bs ! flat_index (world s) dir) ds)))"
    using Cons by simp
  ultimately show ?case by (simp add: distrib_right)
qed

lemma floor_quarter: "4 * (of_int (x div 4) :: rat) \<le> of_int x"
proof -
  have "4 * (x div 4) \<le> x" by simp
  then have "(of_int (4 * (x div 4)) :: rat) \<le> of_int x" by (simp only: of_int_le_iff)
  then show ?thesis by simp
qed

lemma ceil_quarter: "(of_int x :: rat) \<le> 4 * of_int (- ((- x) div 4))"
  using floor_quarter [of "- x"] by simp

lemma length_directions_of: "length (directions_of a c) = 4"
  by (simp add: directions_of_def Let_def)

lemma box_cell_encloses:
  assumes rg: "r s = - 1" "g s = 1" and enc: "encloses s bs f" and c: "inside (world s) c"
  shows "encloses s (box_cell s c bs) (sweep_cell s c f)"
proof (cases "is_last (world s) c \<or> is_first s c")
  case True
  then show ?thesis using enc by (simp add: box_cell_def sweep_cell_def)
next
  case False
  let ?a = "world s"
  let ?ds = "directions_of ?a c"
  let ?ns = "map (\<lambda>dir. bs ! flat_index ?a dir) ?ds"
  let ?lo = "(sum_list (map fst ?ns) - 4 * scale) div 4"
  let ?hi = "- ((4 * scale - sum_list (map snd ?ns)) div 4)"
  let ?v = "expect s f ?ds 0"
  have ds: "\<forall>dir \<in> set ?ds. inside ?a dir" using c by (rule directions_inside)
  have v4: "4 * (?v * of_int scale) = (\<Sum>dir\<leftarrow>?ds. f dir) * of_int scale - 4 * of_int scale"
  proof -
    have "?v = ((\<Sum>dir\<leftarrow>?ds. f dir) - 4) / 4"
      by (simp add: expect_sum [OF rg] length_directions_of)
    then have "4 * ?v = (\<Sum>dir\<leftarrow>?ds. f dir) - 4" by simp
    then have "4 * ?v * of_int scale = ((\<Sum>dir\<leftarrow>?ds. f dir) - 4) * of_int scale" by simp
    then show ?thesis by (simp add: algebra_simps)
  qed
  have "4 * (of_int ?lo :: rat) \<le> of_int (sum_list (map fst ?ns) - 4 * scale)"
    by (rule floor_quarter)
  also have "\<dots> \<le> (\<Sum>dir\<leftarrow>?ds. f dir) * of_int scale - 4 * of_int scale"
    using sum_lower [OF enc ds] by simp
  finally have lo: "of_int ?lo \<le> ?v * of_int scale" using v4 by simp
  have "(\<Sum>dir\<leftarrow>?ds. f dir) * of_int scale - 4 * of_int scale
        \<le> of_int (sum_list (map snd ?ns) - 4 * scale)"
    using sum_upper [OF enc ds] by simp
  also have "\<dots> \<le> 4 * (of_int ?hi :: rat)"
    using ceil_quarter [of "sum_list (map snd ?ns) - 4 * scale"] by simp
  finally have hi: "?v * of_int scale \<le> of_int ?hi" using v4 by simp
  have len: "length bs = shape0 ?a * shape1 ?a" using enc by (simp add: encloses_def)
  have bc: "box_cell s c bs = bs[flat_index ?a c := (?lo, ?hi)]"
    using False by (simp add: box_cell_def Let_def)
  have sc: "sweep_cell s c f = f(c := ?v)"
    using False by (simp add: sweep_cell_def)
  show ?thesis
    unfolding encloses_def
  proof (intro conjI allI impI)
    show "length (box_cell s c bs) = shape0 ?a * shape1 ?a" by (simp add: bc len)
  next
    fix c' assume c': "inside ?a c'"
    show "of_int (fst (box_cell s c bs ! flat_index ?a c')) \<le> sweep_cell s c f c' * of_int scale"
    proof (cases "c' = c")
      case True
      then show ?thesis using lo flat_index_less [OF c] by (simp add: bc sc len)
    next
      case False
      then have "flat_index ?a c' \<noteq> flat_index ?a c" using flat_index_inj [OF c' c] by blast
      then show ?thesis using False enclosesD [OF enc c'] by (simp add: bc sc)
    qed
  next
    fix c' assume c': "inside ?a c'"
    show "sweep_cell s c f c' * of_int scale \<le> of_int (snd (box_cell s c bs ! flat_index ?a c'))"
    proof (cases "c' = c")
      case True
      then show ?thesis using hi flat_index_less [OF c] by (simp add: bc sc len)
    next
      case False
      then have "flat_index ?a c' \<noteq> flat_index ?a c" using flat_index_inj [OF c' c] by blast
      then show ?thesis using False enclosesD [OF enc c'] by (simp add: bc sc)
    qed
  qed
qed

lemma encloses_zeros:
  assumes "\<And>c. item (world s) c = 0"
  shows "encloses s (replicate (shape0 (world s) * shape1 (world s)) (0, 0)) (item (world s))"
  unfolding encloses_def using flat_index_less [of "world s"] assms by simp

lemma fold_box_cell_encloses:
  assumes rg: "r s = - 1" "g s = 1"
  shows "encloses s bs f \<Longrightarrow> \<forall>c \<in> set cs. inside (world s) c \<Longrightarrow>
         encloses s (fold (box_cell s) cs bs) (fold (sweep_cell s) cs f)"
proof (induction cs arbitrary: bs f)
  case Nil
  then show ?case by simp
next
  case (Cons c cs)
  have "encloses s (box_cell s c bs) (sweep_cell s c f)"
    using Cons.prems by (intro box_cell_encloses [OF rg]) simp_all
  then show ?case using Cons by simp
qed

lemma box_sweep_encloses:
  assumes "r s = - 1" "g s = 1" "encloses s bs f"
  shows "encloses s (box_sweep s bs) (sweep_items s f)"
  unfolding box_sweep_def sweep_items_def
  using assms by (intro fold_box_cell_encloses) (simp_all add: indices_inside)

lemma box_run_encloses:
  assumes rg: "r s = - 1" "g s = 1"
  shows "encloses s bs f \<Longrightarrow> encloses s (box_run n s bs) ((sweep_items s ^^ n) f)"
proof (induction n arbitrary: bs f)
  case 0
  then show ?case by simp
next
  case (Suc n)
  have "encloses s (box_sweep s bs) (sweep_items s f)"
    using Suc.prems by (rule box_sweep_encloses [OF rg])
  from Suc.IH [OF this] show ?case by (simp add: funpow_swap1)
qed

lemma below_run:
  "below (box_run 100 (GridWorldSolver (-1) (4, 4) 1 (1/100000) ''first_and_last'' 100)
            (replicate 16 (0, 0))) 14 1 322123"
  by code_simp

lemma mirror_close_run:
  "mirror_close (box_run 100 (GridWorldSolver (-1) (4, 4) 1 (1/100000) ''first_and_last'' 100)
            (replicate 16 (0, 0))) 429496"
  by code_simp

lemma mirror_closeD:
  "mirror_close bs m \<Longrightarrow> k < length bs \<Longrightarrow> snd (bs ! k) - fst (bs ! (length bs - 1 - k)) \<le> m"
  by (simp add: mirror_close_def list_all_iff)

lemma encloses_length: "encloses s bs f \<Longrightarrow> length bs = shape0 (world s) * shape1 (world s)"
  by (simp add: encloses_def)

section \<open>The properties\<close>

subsection \<open>C1: \<open>v_pi\<close>\<close>

text \<open>
  C1. For four neighbour coordinates inside the grid (the coordinates \<open>iterate\<close> passes
  always are), \<open>v_pi\<close> returns the uniform-policy expectation: the sum over the four of
  \<open>(1/4) * (r + g * V(neighbour))\<close>, read from the current grid, and it returns the solver
  object as it received it.
\<close>

theorem v_pi_uniform_expectation:
  assumes "inside (world s) n1" "inside (world s) n2" "inside (world s) n3" "inside (world s) n4"
  shows "v_pi s [n1, n2, n3, n4] =
    (Inr ((1/4) * (r s + g s * item (world s) n1) + (1/4) * (r s + g s * item (world s) n2)
        + (1/4) * (r s + g s * item (world s) n3) + (1/4) * (r s + g s * item (world s) n4)), s)"
  using assms by (simp add: v_pi_def getitem_def d_names_def)

text \<open>At the centre of the zero 3 by 3 grid, with reward \<open>-1\<close> and discount \<open>1\<close>.\<close>

theorem v_pi_uniform_expectation_witness:
  "inside (world (GridWorldSolver (-1) (3, 3) 1 (1/100000) ''last'' 0)) (0, 1)
   \<and> inside (world (GridWorldSolver (-1) (3, 3) 1 (1/100000) ''last'' 0)) (2, 1)
   \<and> inside (world (GridWorldSolver (-1) (3, 3) 1 (1/100000) ''last'' 0)) (1, 0)
   \<and> inside (world (GridWorldSolver (-1) (3, 3) 1 (1/100000) ''last'' 0)) (1, 2)
   \<and> v_pi (GridWorldSolver (-1) (3, 3) 1 (1/100000) ''last'' 0) [(0, 1), (2, 1), (1, 0), (1, 2)] =
       (Inr (- 1), GridWorldSolver (-1) (3, 3) 1 (1/100000) ''last'' 0)"
proof -
  define s where "s = GridWorldSolver (-1) (3, 3) 1 (1/100000) ''last'' 0"
  have h: "inside (world s) (0, 1)" "inside (world s) (2, 1)" "inside (world s) (1, 0)"
    "inside (world s) (1, 2)"
    by (simp_all add: s_def GridWorldSolver_def zeros_def inside_def)
  have v: "r s = - 1" "g s = 1" "item (world s) = (\<lambda>_. 0)"
    by (simp_all add: s_def GridWorldSolver_def zeros_def)
  have "v_pi s [(0, 1), (2, 1), (1, 0), (1, 2)] = (Inr (- 1), s)"
    using v_pi_uniform_expectation [OF h] by (simp add: v)
  with h show ?thesis by (simp only: s_def)
qed

subsection \<open>C2: the sweep updates in place\<close>

text \<open>
  That every neighbour lookup of a sweep reads the values of the previous sweep fails on
  the zero 3 by 3 grid: \<open>v_pi\<close> on the grid before the sweep gives \<open>-1\<close> for the
  cell \<open>(0, 1)\<close>, while the sweep leaves \<open>-5/4\<close> there, because its left neighbour
  \<open>(0, 0)\<close> had already been set to \<open>-1\<close>.
\<close>

theorem iterate_reads_updated_left_neighbour:
  "fst (v_pi (GridWorldSolver (-1) (3, 3) 1 (1/100000) ''last'' 0)
          (directions_of (world (GridWorldSolver (-1) (3, 3) 1 (1/100000) ''last'' 0)) (0, 1))) = Inr (- 1)
   \<and> item (world (snd (iterate (GridWorldSolver (-1) (3, 3) 1 (1/100000) ''last'' 0)))) (0, 1) = - (5/4)"
  by code_simp

text \<open>
  C2, as the code has it. A single call of \<open>iterate\<close> gives each non-terminal cell
  \<open>(i, j)\<close> the uniform expectation over its four neighbour lookups, where the upper and
  the left neighbour are read as this sweep has already updated them, and the lower and
  the right neighbour, and the cell itself where a move bounces off the edge, are read as
  the previous sweep left them.
\<close>

theorem iterate_in_place_update:
  assumes "inside (world s) (i, j)" and "\<not> is_last (world s) (i, j)" and "\<not> is_first s (i, j)"
  shows "item (world (snd (iterate s))) (i, j) =
      (1/4) * (r s + g s * (if i = 0 then item (world s) (i, j)
                            else item (world (snd (iterate s))) (i - 1, j)))
    + (1/4) * (r s + g s * (if i + 1 < shape0 (world s) then item (world s) (i + 1, j)
                            else item (world s) (i, j)))
    + (1/4) * (r s + g s * (if j = 0 then item (world s) (i, j)
                            else item (world (snd (iterate s))) (i, j - 1)))
    + (1/4) * (r s + g s * (if j + 1 < shape1 (world s) then item (world s) (i, j + 1)
                            else item (world s) (i, j)))"
  using sweep_items_explicit [OF assms, of "item (world s)"]
  by (simp add: snd_iterate sweep_items_eq)

theorem iterate_in_place_update_witness:
  "inside (world (GridWorldSolver (-1) (3, 3) 1 (1/100000) ''last'' 0)) (1, 1)
   \<and> \<not> is_last (world (GridWorldSolver (-1) (3, 3) 1 (1/100000) ''last'' 0)) (1, 1)
   \<and> \<not> is_first (GridWorldSolver (-1) (3, 3) 1 (1/100000) ''last'' 0) (1, 1)
   \<and> item (world (snd (iterate (GridWorldSolver (-1) (3, 3) 1 (1/100000) ''last'' 0)))) (1, 1) =
        (1/4) * (- 1 + item (world (snd (iterate (GridWorldSolver (-1) (3, 3) 1 (1/100000) ''last'' 0)))) (0, 1))
      + (1/4) * (- 1 + 0)
      + (1/4) * (- 1 + item (world (snd (iterate (GridWorldSolver (-1) (3, 3) 1 (1/100000) ''last'' 0)))) (1, 0))
      + (1/4) * (- 1 + 0)"
proof -
  let ?s = "GridWorldSolver (-1) (3, 3) 1 (1/100000) ''last'' 0"
  have h: "inside (world ?s) (1, 1)" "\<not> is_last (world ?s) (1, 1)" "\<not> is_first ?s (1, 1)"
    by (simp_all add: GridWorldSolver_def zeros_def inside_def is_last_def is_first_def)
  show ?thesis
    using h iterate_in_place_update [OF h] by (simp add: GridWorldSolver_def zeros_def)
qed

subsection \<open>C3: terminal cells\<close>

text \<open>
  C3. For every configuration, a terminal cell of the grid (the bottom-right cell; the
  top-left cell too when \<open>terminals\<close> is \<open>first_and_last\<close>) still holds its initial value
  \<open>0\<close> after any number of calls of \<open>iterate\<close>.
\<close>

theorem terminal_cells_stay_zero:
  assumes "inside (world (GridWorldSolver rewards world_size gamma theta0 terminals0 iterations0)) c"
    and "is_last (world (GridWorldSolver rewards world_size gamma theta0 terminals0 iterations0)) c
         \<or> is_first (GridWorldSolver rewards world_size gamma theta0 terminals0 iterations0) c"
  shows "getitem (world (run_sweeps n (GridWorldSolver rewards world_size gamma theta0 terminals0 iterations0))) c
         = Inr 0"
proof -
  define s where "s = GridWorldSolver rewards world_size gamma theta0 terminals0 iterations0"
  have z: "item (world s) c = 0" by (simp add: s_def GridWorldSolver_def zeros_def)
  have "item (world (run_sweeps n s)) c = item (world s) c"
    using assms(2) unfolding s_def [symmetric]
    by (simp add: run_sweeps_items funpow_sweep_items_terminal)
  moreover have "inside (world (run_sweeps n s)) c"
    using assms(1) unfolding s_def [symmetric] by (simp add: run_sweeps_items)
  ultimately have "getitem (world (run_sweeps n s)) c = Inr 0"
    by (simp add: getitem_def z)
  then show ?thesis by (simp only: s_def)
qed

text \<open>The top-left cell of a 2 by 2 grid with both corners terminal, after five sweeps.\<close>

theorem terminal_cells_stay_zero_witness:
  "inside (world (GridWorldSolver (-1) (2, 2) 1 (1/100000) ''first_and_last'' 0)) (0, 0)
   \<and> (is_last (world (GridWorldSolver (-1) (2, 2) 1 (1/100000) ''first_and_last'' 0)) (0, 0)
       \<or> is_first (GridWorldSolver (-1) (2, 2) 1 (1/100000) ''first_and_last'' 0) (0, 0))
   \<and> getitem (world (run_sweeps 5 (GridWorldSolver (-1) (2, 2) 1 (1/100000) ''first_and_last'' 0))) (0, 0)
       = Inr 0"
proof -
  let ?s = "GridWorldSolver (-1) (2, 2) 1 (1/100000) ''first_and_last'' 0"
  have h1: "inside (world ?s) (0, 0)"
    by (simp add: GridWorldSolver_def zeros_def inside_def)
  have h2: "is_last (world ?s) (0, 0) \<or> is_first ?s (0, 0)"
    by (simp add: GridWorldSolver_def is_first_def)
  show ?thesis
    using h1 h2 terminal_cells_stay_zero [OF h1 h2, of 5] by blast
qed

subsection \<open>C4: the count printed in convergence mode\<close>

text \<open>
  C4 at a concrete input: a 2 by 2 grid with reward \<open>-1\<close>, discount \<open>1\<close>, threshold \<open>2\<close>
  and \<open>iterations = 0\<close>. The first sweep returns the delta \<open>5/4\<close>, below the threshold, so
  the loop stops after one sweep: the grid returned is the grid after exactly one call of
  \<open>iterate\<close> (its cell \<open>(0, 0)\<close> holds \<open>-1\<close>; a second sweep would make it \<open>-17/8\<close>). The
  number printed as "Iterations completed" is \<open>2\<close>.
\<close>

theorem convergence_mode_prints_one_more:
  "calc_mini_gridworld (GridWorldSolver (-1) (2, 2) 1 2 ''last'' 0) =
     Some (Inr (2, world (run_sweeps 1 (GridWorldSolver (-1) (2, 2) 1 2 ''last'' 0))),
           run_sweeps 1 (GridWorldSolver (-1) (2, 2) 1 2 ''last'' 0))
   \<and> item (world (run_sweeps 1 (GridWorldSolver (-1) (2, 2) 1 2 ''last'' 0))) (0, 0) = - 1
   \<and> item (world (run_sweeps 2 (GridWorldSolver (-1) (2, 2) 1 2 ''last'' 0))) (0, 0) = - (17/8)"
proof -
  define s where "s = GridWorldSolver (-1) (2, 2) 1 2 ''last'' 0"
  define s1 where "s1 = run_sweeps 1 s"
  have f: "fst (iterate s) = Inr (Some (5/4))" unfolding s_def by code_simp
  have r1: "s1 = snd (iterate s)" by (simp add: s1_def run_sweeps_def)
  have r2: "run_sweeps 2 s = snd (iterate (snd (iterate s)))"
    by (simp add: run_sweeps_def numeral_2_eq_2)
  have it: "iterate s = (Inr (Some (5/4)), s1)"
    using f r1 by (simp add: prod_eq_iff)
  have th: "theta s1 = 2" "iterations s = 0"
    by (simp_all add: s1_def run_sweeps_items) (simp_all add: s_def GridWorldSolver_def)
  have w: "while_iterate s Infinity 0 = Some (Inr 1, s1)"
    by (subst while_iterate.simps) (simp add: it th)
  have c: "calc_mini_gridworld s = Some (Inr (2, world s1), s1)"
    by (simp add: calc_mini_gridworld_def th w)
  have v1: "item (world s1) (0, 0) = - 1" unfolding r1 s_def by code_simp
  have v2: "item (world (run_sweeps 2 s)) (0, 0) = - (17/8)" unfolding r2 s_def by code_simp
  show ?thesis
    using c v1 v2 by (simp only: s_def s1_def)
qed

subsection \<open>C5: a fixed number of iterations\<close>

text \<open>
  C5. When \<open>iterations\<close> is positive, \<open>calc_mini_gridworld\<close> returns the grid after exactly
  that many calls of \<open>iterate\<close> and prints that number; no call of \<open>iterate\<close> computes a
  delta (each returns \<open>None\<close>), and the number printed and the grid returned are the same
  for every value of \<open>theta\<close>.
\<close>

theorem fixed_iterations_exact:
  assumes "0 < iterations s"
  shows "calc_mini_gridworld s =
           Some (Inr (iterations s, world (run_sweeps (nat (iterations s)) s)),
                 run_sweeps (nat (iterations s)) s)
       \<and> (\<forall>k. fst (iterate (run_sweeps k s)) = Inr None)
       \<and> (\<forall>t. map_option fst (calc_mini_gridworld (s\<lparr>theta := t\<rparr>)) =
                map_option fst (calc_mini_gridworld s))"
proof -
  have A: "calc_mini_gridworld s =
           Some (Inr (iterations s, world (run_sweeps (nat (iterations s)) s)),
                 run_sweeps (nat (iterations s)) s)"
    using assms by (rule calc_fixed)
  have B: "fst (iterate (run_sweeps k s)) = Inr None" for k
    using assms by (simp add: iterate_fixed)
  have C: "map_option fst (calc_mini_gridworld (s\<lparr>theta := t\<rparr>)) =
           map_option fst (calc_mini_gridworld s)" for t
  proof -
    have "0 < iterations (s\<lparr>theta := t\<rparr>)" using assms by simp
    from calc_fixed [OF this] show ?thesis
      by (simp add: A world_run_sweeps_theta)
  qed
  from A B C show ?thesis by blast
qed

theorem fixed_iterations_exact_witness:
  "0 < iterations (GridWorldSolver (-1) (2, 2) 1 (1/100000) ''last'' 3)
   \<and> calc_mini_gridworld (GridWorldSolver (-1) (2, 2) 1 (1/100000) ''last'' 3) =
       Some (Inr (3, world (run_sweeps 3 (GridWorldSolver (-1) (2, 2) 1 (1/100000) ''last'' 3))),
             run_sweeps 3 (GridWorldSolver (-1) (2, 2) 1 (1/100000) ''last'' 3))"
proof -
  let ?s = "GridWorldSolver (-1) (2, 2) 1 (1/100000) ''last'' 3"
  have it: "iterations ?s = 3" by (simp add: GridWorldSolver_def)
  have h: "0 < iterations ?s" by (simp add: it)
  show ?thesis
    using h fixed_iterations_exact [OF h] by (simp add: it)
qed

subsection \<open>C6: the delta\<close>

text \<open>
  C6. In convergence mode (\<open>iterations = 0\<close>) on a grid of at least two cells, \<open>iterate\<close>
  returns the greatest absolute difference between the grid after the sweep and the grid
  before it over every cell except \<open>(0, 0)\<close>, the first index of the row-major flattening.
  This holds for every value of \<open>terminals\<close>, so for \<open>last\<close> as well.
\<close>

theorem iterate_delta_skips_first_index:
  assumes "iterations s = 0" and "2 \<le> shape0 (world s) * shape1 (world s)"
  shows "fst (iterate s) =
     Inr (Some (Max ((\<lambda>c. \<bar>item (world (snd (iterate s))) c - item (world s) c\<bar>) `
                      {c. inside (world s) c \<and> c \<noteq> (0, 0)})))"
proof -
  let ?a = "world s"
  have pos: "0 < shape0 ?a" "0 < shape1 ?a" using assms(2) by (auto intro: Nat.gr0I)
  have len: "length (indices ?a) \<noteq> 1" "tl (indices ?a) \<noteq> []"
    using assms(2) by (auto simp: length_indices simp flip: length_0_conv)
  have it: "iterate s = (map_sum id Some
       (py_max (map (\<lambda>c. \<bar>item (world (sweep s)) c - item ?a c\<bar>) (tl (indices ?a)))), sweep s)"
    using assms(1) len
    by (simp add: iterate_def iterate_loop_sweep Let_def squeeze_tail_def ravel_def sweep_items_eq
        drop_Suc map_tl [symmetric] map2_abs_diff del: map_tl split: sum.splits)
  show ?thesis
    using len by (simp add: snd_iterate it py_max_Max set_tl_indices [OF pos])
qed

theorem iterate_delta_skips_first_index_witness:
  "iterations (GridWorldSolver (-1) (2, 2) 1 (1/100000) ''last'' 0) = 0
   \<and> 2 \<le> shape0 (world (GridWorldSolver (-1) (2, 2) 1 (1/100000) ''last'' 0))
          * shape1 (world (GridWorldSolver (-1) (2, 2) 1 (1/100000) ''last'' 0))
   \<and> fst (iterate (GridWorldSolver (-1) (2, 2) 1 (1/100000) ''last'' 0)) =
       Inr (Some (Max ((\<lambda>c. \<bar>item (world (snd (iterate (GridWorldSolver (-1) (2, 2) 1 (1/100000) ''last'' 0)))) c
                             - item (world (GridWorldSolver (-1) (2, 2) 1 (1/100000) ''last'' 0)) c\<bar>) `
          {c. inside (world (GridWorldSolver (-1) (2, 2) 1 (1/100000) ''last'' 0)) c \<and> c \<noteq> (0, 0)})))"
proof -
  let ?s = "GridWorldSolver (-1) (2, 2) 1 (1/100000) ''last'' 0"
  have h1: "iterations ?s = 0" by (simp add: GridWorldSolver_def)
  have h2: "2 \<le> shape0 (world ?s) * shape1 (world ?s)"
    by (simp add: GridWorldSolver_def zeros_def)
  show ?thesis
    using h1 h2 iterate_delta_skips_first_index [OF h1 h2] by blast
qed

subsection \<open>C7: the centre of the 3 by 3 grid after one sweep\<close>

text \<open>
  The value \<open>-1\<close> that the specification gives for the centre cell after the first sweep
  is not what the sweep leaves there.
\<close>

theorem centre_after_first_sweep_not_minus_one:
  "item (world (snd (iterate (GridWorldSolver (-1) (3, 3) 1 (1/100000) ''last'' 0)))) (1, 1) \<noteq> - 1"
  by code_simp

text \<open>
  C7, as the code has it. For a 3 by 3 grid with only the bottom-right cell terminal,
  reward \<open>-1\<close> and discount \<open>1\<close>, a single sweep from the zero grid leaves the centre cell
  \<open>(1, 1)\<close> with the value \<open>-13/8 = -1.625\<close>, its upper and left neighbour having been
  updated to \<open>-5/4\<close> before it; the first cell visited, \<open>(0, 0)\<close>, is the one left with \<open>-1\<close>.
\<close>

theorem centre_after_first_sweep:
  "item (world (snd (iterate (GridWorldSolver (-1) (3, 3) 1 (1/100000) ''last'' 0)))) (1, 1) = - (13/8)
   \<and> item (world (snd (iterate (GridWorldSolver (-1) (3, 3) 1 (1/100000) ''last'' 0)))) (0, 1) = - (5/4)
   \<and> item (world (snd (iterate (GridWorldSolver (-1) (3, 3) 1 (1/100000) ''last'' 0)))) (1, 0) = - (5/4)
   \<and> item (world (snd (iterate (GridWorldSolver (-1) (3, 3) 1 (1/100000) ''last'' 0)))) (0, 0) = - 1"
  by code_simp

subsection \<open>C8: symmetry of the 4 by 4 grid after 100 sweeps\<close>

text \<open>
  The grid returned for the 4 by 4 grid with both corners terminal, reward \<open>-1\<close>, discount
  \<open>1\<close> and \<open>iterations = 100\<close> is not point-symmetric: the cell \<open>(0, 1)\<close> and its mirror
  image \<open>(3, 2)\<close> hold values more than \<open>3/10000\<close> apart. The interval bounds of the run
  separate them.
\<close>

theorem fixed_100_not_point_symmetric:
  "calc_mini_gridworld (GridWorldSolver (-1) (4, 4) 1 (1/100000) ''first_and_last'' 100) =
     Some (Inr (100, world (run_sweeps 100 (GridWorldSolver (-1) (4, 4) 1 (1/100000) ''first_and_last'' 100))),
           run_sweeps 100 (GridWorldSolver (-1) (4, 4) 1 (1/100000) ''first_and_last'' 100))
   \<and> item (world (run_sweeps 100 (GridWorldSolver (-1) (4, 4) 1 (1/100000) ''first_and_last'' 100))) (0, 1)
     \<noteq> item (world (run_sweeps 100 (GridWorldSolver (-1) (4, 4) 1 (1/100000) ''first_and_last'' 100))) (3 - 0, 3 - 1)
   \<and> item (world (run_sweeps 100 (GridWorldSolver (-1) (4, 4) 1 (1/100000) ''first_and_last'' 100))) (3, 2) + 3/10000
     < item (world (run_sweeps 100 (GridWorldSolver (-1) (4, 4) 1 (1/100000) ''first_and_last'' 100))) (0, 1)"
proof -
  let ?s = "GridWorldSolver (-1) (4, 4) 1 (1/100000) ''first_and_last'' 100"
  let ?f = "(sweep_items ?s ^^ 100) (item (world ?s))"
  let ?bs = "box_run 100 ?s (replicate 16 (0, 0))"
  have it: "iterations ?s = 100" by (simp add: GridWorldSolver_def)
  have A: "calc_mini_gridworld ?s = Some (Inr (100, world (run_sweeps 100 ?s)), run_sweeps 100 ?s)"
    using calc_fixed [of ?s] by (simp add: it)
  have rg: "r ?s = - 1" "g ?s = 1" by (simp_all add: GridWorldSolver_def)
  have e0: "encloses ?s (replicate 16 (0, 0)) (item (world ?s))"
    using encloses_zeros [of ?s] by (simp add: GridWorldSolver_def zeros_def)
  have enc: "encloses ?s ?bs ?f" using e0 by (rule box_run_encloses [OF rg])
  have in1: "inside (world ?s) (0, 1)" and in14: "inside (world ?s) (3, 2)"
    by (simp_all add: inside_def GridWorldSolver_def zeros_def)
  have ix: "flat_index (world ?s) (0, 1) = 1" "flat_index (world ?s) (3, 2) = 14"
    by (simp_all add: flat_index_def GridWorldSolver_def zeros_def)
  have up: "?f (3, 2) * of_int scale \<le> of_int (snd (?bs ! 14))"
    using enc in14 ix unfolding encloses_def by metis
  have "snd (?bs ! 14) + 322123 \<le> fst (?bs ! 1)"
    using below_run by (simp only: below_def)
  then have "(of_int (snd (?bs ! 14) + 322123) :: rat) \<le> of_int (fst (?bs ! 1))"
    by (simp only: of_int_le_iff)
  then have gap: "(of_int (snd (?bs ! 14)) :: rat) + 322123 \<le> of_int (fst (?bs ! 1))"
    by simp
  have lo: "of_int (fst (?bs ! 1)) \<le> ?f (0, 1) * of_int scale"
    using enc in1 ix unfolding encloses_def by metis
  from up gap lo have "?f (3, 2) * of_int scale + 322123 \<le> ?f (0, 1) * of_int scale"
    by linarith
  then have "?f (3, 2) + 3/10000 < ?f (0, 1)" by (simp add: scale_def)
  then have B: "item (world (run_sweeps 100 ?s)) (3, 2) + 3/10000
                < item (world (run_sweeps 100 ?s)) (0, 1)"
    by (simp add: run_sweeps_items)
  then have "item (world (run_sweeps 100 ?s)) (0, 1) \<noteq> item (world (run_sweeps 100 ?s)) (3, 2)"
    by simp
  with A B show ?thesis by simp
qed

text \<open>
  C8, as the code has it. The run performs its 100 sweeps and returns a grid that is
  point-symmetric up to a tolerance: \<open>grid[i][j]\<close> and \<open>grid[3-i][3-j]\<close> differ by less than
  \<open>1/2500\<close> for every cell \<open>(i, j)\<close>. The interval bounds of the run give the tolerance.
\<close>

theorem fixed_100_point_symmetric_within_tolerance:
  "calc_mini_gridworld (GridWorldSolver (-1) (4, 4) 1 theta0 ''first_and_last'' 100) =
     Some (Inr (100, world (run_sweeps 100 (GridWorldSolver (-1) (4, 4) 1 theta0 ''first_and_last'' 100))),
           run_sweeps 100 (GridWorldSolver (-1) (4, 4) 1 theta0 ''first_and_last'' 100))
   \<and> (\<forall>i<4. \<forall>j<4.
        \<bar>item (world (run_sweeps 100 (GridWorldSolver (-1) (4, 4) 1 theta0 ''first_and_last'' 100))) (i, j)
         - item (world (run_sweeps 100 (GridWorldSolver (-1) (4, 4) 1 theta0 ''first_and_last'' 100))) (3 - i, 3 - j)\<bar>
        < 1/2500)"
proof -
  define s where "s = GridWorldSolver (-1) (4, 4) 1 (1/100000) ''first_and_last'' 100"
  define st where "st = GridWorldSolver (-1) (4, 4) 1 theta0 ''first_and_last'' 100"
  define f where "f = (sweep_items s ^^ 100) (item (world s))"
  define bs where "bs = box_run 100 s (replicate 16 (0, 0))"
  have it: "iterations st = 100" by (simp add: st_def GridWorldSolver_def)
  have A: "calc_mini_gridworld st = Some (Inr (100, world (run_sweeps 100 st)), run_sweeps 100 st)"
    using calc_fixed [of st] by (simp add: it)
  have "st = s\<lparr>theta := theta0\<rparr>" by (simp add: st_def s_def GridWorldSolver_def)
  then have "world (run_sweeps 100 st) = world (run_sweeps 100 s)"
    by (simp only: world_run_sweeps_theta)
  then have w: "item (world (run_sweeps 100 st)) = f"
    by (simp add: f_def run_sweeps_items)
  have rg: "r s = - 1" "g s = 1" by (simp_all add: s_def GridWorldSolver_def)
  have sh: "shape0 (world s) = 4" "shape1 (world s) = 4"
    by (simp_all add: s_def GridWorldSolver_def zeros_def)
  have e0: "encloses s (replicate 16 (0, 0)) (item (world s))"
    using encloses_zeros [of s] by (simp add: sh) (simp add: s_def GridWorldSolver_def zeros_def)
  have enc: "encloses s bs f"
    unfolding bs_def f_def using e0 by (rule box_run_encloses [OF rg])
  have len: "length bs = 16" using encloses_length [OF enc] by (simp add: sh)
  have mc: "mirror_close bs 429496"
    unfolding bs_def s_def by (rule mirror_close_run)
  have one: "f (i, j) - f (3 - i, 3 - j) < 1/2500" if ij: "i < 4" "j < 4" for i j
  proof -
    have in1: "inside (world s) (i, j)" and in2: "inside (world s) (3 - i, 3 - j)"
      using ij by (auto simp: inside_def sh)
    have k: "flat_index (world s) (i, j) = 4 * i + j"
      by (simp add: flat_index_def sh)
    have k': "flat_index (world s) (3 - i, 3 - j) = length bs - 1 - (4 * i + j)"
      using ij by (simp add: flat_index_def sh len)
    have kl: "4 * i + j < length bs" using ij by (simp add: len)
    have hi: "f (i, j) * of_int scale \<le> of_int (snd (bs ! (4 * i + j)))"
      using enclosesD(2) [OF enc in1] by (simp only: k)
    have lo: "of_int (fst (bs ! (length bs - 1 - (4 * i + j)))) \<le> f (3 - i, 3 - j) * of_int scale"
      using enclosesD(1) [OF enc in2] by (simp only: k')
    have "snd (bs ! (4 * i + j)) - fst (bs ! (length bs - 1 - (4 * i + j))) \<le> 429496"
      using mc kl by (rule mirror_closeD)
    then have "(of_int (snd (bs ! (4 * i + j)) - fst (bs ! (length bs - 1 - (4 * i + j)))) :: rat)
               \<le> of_int 429496"
      by (simp only: of_int_le_iff)
    then have gap: "(of_int (snd (bs ! (4 * i + j))) :: rat)
               - of_int (fst (bs ! (length bs - 1 - (4 * i + j)))) \<le> 429496"
      by simp
    from hi lo gap have "f (i, j) * of_int scale - f (3 - i, 3 - j) * of_int scale \<le> 429496"
      by linarith
    then show ?thesis by (simp add: scale_def)
  qed
  have "\<bar>f (i, j) - f (3 - i, 3 - j)\<bar> < 1/2500" if ij: "i < 4" "j < 4" for i j
  proof -
    have a: "f (i, j) - f (3 - i, 3 - j) < 1/2500" using ij by (rule one)
    have "3 - i < 4" "3 - j < 4" by linarith+
    from one [OF this] have "f (3 - i, 3 - j) - f (3 - (3 - i), 3 - (3 - j)) < 1/2500" .
    moreover have "3 - (3 - i) = i" "3 - (3 - j) = j" using ij by simp_all
    ultimately have b: "f (3 - i, 3 - j) - f (i, j) < 1/2500" by simp
    from a b show ?thesis by linarith
  qed
  with A w show ?thesis unfolding st_def by simp
qed

text \<open>At the cell \<open>(0, 1)\<close> and its mirror image \<open>(3, 2)\<close>.\<close>

theorem fixed_100_point_symmetric_within_tolerance_witness:
  "(0::nat) < 4 \<and> (1::nat) < 4
   \<and> \<bar>item (world (run_sweeps 100 (GridWorldSolver (-1) (4, 4) 1 (1/100000) ''first_and_last'' 100))) (0, 1)
      - item (world (run_sweeps 100 (GridWorldSolver (-1) (4, 4) 1 (1/100000) ''first_and_last'' 100))) (3, 2)\<bar>
     < 1/2500"
proof -
  have h: "(0::nat) < 4" "(1::nat) < 4" by simp_all
  have "(3::nat) - 0 = 3" "(3::nat) - 1 = 2" by simp_all
  then show ?thesis using h fixed_100_point_symmetric_within_tolerance [of "1/100000"] by (metis)
qed

subsection \<open>C9: the overlay\<close>

text \<open>
  That an overlay cell holds one glyph for every strictly greater neighbour fails on a
  2 by 2 grid whose cell \<open>(0, 0)\<close> has two strictly greater neighbours: the
  overlay cell holds one direction glyph.
\<close>

theorem overlay_cell_holds_one_glyph:
  "count_arrows (citem (add_arrows (GridWorldSolver (-1) (2, 2) 1 (1/100000) ''last'' 0)
     \<lparr>shape0 = 2, shape1 = 2, item = (\<lambda>_. 0)((0, 1) := 1, (1, 0) := 1)\<rparr>) (0, 0)) = 1
   \<and> length (greater_neighbours \<lparr>shape0 = 2, shape1 = 2, item = (\<lambda>_. 0)((0, 1) := 1, (1, 0) := 1)\<rparr> (0, 0)) = 2"
  by code_simp

text \<open>
  C9, as the code has it. For every value grid of the solver's shape, \<open>add_arrows\<close> gives a
  terminal cell the goal glyph \<open>G\<close> and every other cell the glyph of the first neighbour
  in the grid, in the order up, down, left, right, whose value is strictly greater than the
  cell's own, followed by a space; the cell is empty when no neighbour is strictly greater.
\<close>

theorem add_arrows_first_greater_neighbour:
  assumes "shape0 gw = shape0 (world s)" "shape1 gw = shape1 (world s)" "inside gw c"
  shows "citem (add_arrows s gw) c =
     (if is_last (world s) c \<or> is_first s c then ''G''
      else (case greater_neighbours gw c of [] \<Rightarrow> '''' | x # _ \<Rightarrow> [x, CHR '' '']))"
  using assms take2_arrows [OF assms]
  by (simp add: add_arrows_def fold_add_arrows_cell indices_inside)

theorem add_arrows_first_greater_neighbour_witness:
  "shape0 \<lparr>shape0 = 2, shape1 = 2, item = (\<lambda>_. 0)((0, 1) := 1, (1, 0) := 1)\<rparr>
     = shape0 (world (GridWorldSolver (-1) (2, 2) 1 (1/100000) ''last'' 0))
   \<and> shape1 \<lparr>shape0 = 2, shape1 = 2, item = (\<lambda>_. 0)((0, 1) := 1, (1, 0) := 1)\<rparr>
     = shape1 (world (GridWorldSolver (-1) (2, 2) 1 (1/100000) ''last'' 0))
   \<and> inside \<lparr>shape0 = 2, shape1 = 2, item = (\<lambda>_. 0)((0, 1) := 1, (1, 0) := 1)\<rparr> (0, 0)
   \<and> citem (add_arrows (GridWorldSolver (-1) (2, 2) 1 (1/100000) ''last'' 0)
        \<lparr>shape0 = 2, shape1 = 2, item = (\<lambda>_. 0)((0, 1) := 1, (1, 0) := 1)\<rparr>) (0, 0) = ''v ''"
proof -
  define gw :: ndarray where "gw = \<lparr>shape0 = 2, shape1 = 2, item = (\<lambda>_. 0)((0, 1) := 1, (1, 0) := 1)\<rparr>"
  define s where "s = GridWorldSolver (-1) (2, 2) 1 (1/100000) ''last'' 0"
  have h: "shape0 gw = shape0 (world s)" "shape1 gw = shape1 (world s)" "inside gw (0, 0)"
    by (simp_all add: gw_def s_def GridWorldSolver_def zeros_def inside_def)
  have t: "\<not> (is_last (world s) (0, 0) \<or> is_first s (0, 0))"
    by (simp add: s_def GridWorldSolver_def zeros_def is_last_def is_first_def)
  have gn: "greater_neighbours gw (0, 0) = ''v>''"
    by (simp add: gw_def greater_neighbours_def in_grid_neighbours_def)
  have "citem (add_arrows s gw) (0, 0) = ''v ''"
    using add_arrows_first_greater_neighbour [OF h] t by (simp add: gn)
  with h show ?thesis by (simp only: gw_def s_def)
qed

subsection \<open>C10: the grid of one cell\<close>

text \<open>
  On the 1 by 1 grid in convergence mode the flattened grid with its first index dropped
  is not an empty collection, and the error raised is not the \<open>ValueError\<close> of a maximum
  over nothing: squeezing the flattened one-cell grid leaves an array without axes, and
  slicing it raises \<open>IndexError\<close> before any maximum is taken.
\<close>

theorem one_cell_grid_no_empty_maximum:
  "squeeze_tail (ravel (world (snd (iterate (GridWorldSolver (-1) (1, 1) 1 (1/100000) ''last'' 0))))) \<noteq> Inr []
   \<and> fst (iterate (GridWorldSolver (-1) (1, 1) 1 (1/100000) ''last'' 0)) \<noteq> Inl ValueError"
  by code_simp

text \<open>
  C10, as the code has it. For a 1 by 1 grid in convergence mode (\<open>iterations = 0\<close>), the
  only cell is the bottom-right terminal, so \<open>iterate\<close> updates nothing; its delta
  computation raises \<open>IndexError\<close> instead of returning a delta, and
  \<open>calc_mini_gridworld\<close> ends with that error instead of converging.
\<close>

theorem one_cell_grid_raises:
  "iterate (GridWorldSolver rewards (1, 1) gamma theta0 terminals0 0) =
     (Inl IndexError, GridWorldSolver rewards (1, 1) gamma theta0 terminals0 0)
   \<and> calc_mini_gridworld (GridWorldSolver rewards (1, 1) gamma theta0 terminals0 0) =
     Some (Inl IndexError, GridWorldSolver rewards (1, 1) gamma theta0 terminals0 0)"
proof -
  define s where "s = GridWorldSolver rewards (1, 1) gamma theta0 terminals0 0"
  have i1: "iterate s = (Inl IndexError, s)" unfolding s_def by (rule iterate_one_cell)
  have it: "iterations s = 0" by (simp add: s_def GridWorldSolver_def)
  have "while_iterate s Infinity 0 = Some (Inl IndexError, s)"
    by (subst while_iterate.simps) (simp add: i1)
  then have "calc_mini_gridworld s = Some (Inl IndexError, s)"
    by (simp add: calc_mini_gridworld_def it)
  with i1 show ?thesis by (simp only: s_def)
qed

end
